theory Spec2Isabelle
  imports Main "HOL-Library.AList" "HOL-Library.Sublist"
begin

section \<open>Python strings\<close>

text \<open>
  A Python \<open>str\<close> is a sequence of Unicode code points. A code point is modelled as a
  natural number and a string as a list of them, so that the whitespace test of
  \<open>str.strip\<close> and \<open>str.rstrip\<close> covers the code points beyond ASCII as well.
  \<open>py\<close> turns an ASCII literal into such a string.
\<close>

type_synonym pystr = "nat list"

definition py :: "string \<Rightarrow> pystr" where
  "py s = map of_char s"

text \<open>
  The code points for which \<open>str.isspace\<close> holds; \<open>strip()\<close> and \<open>rstrip()\<close> with no
  argument remove exactly these: U+0009..U+000D, U+001C..U+0020, U+0085, U+00A0, U+1680,
  U+2000..U+200A, U+2028, U+2029, U+202F, U+205F, U+3000.
\<close>

definition isspace :: "nat \<Rightarrow> bool" where
  "isspace c \<longleftrightarrow>
     (9 \<le> c \<and> c \<le> 13) \<or> (28 \<le> c \<and> c \<le> 32) \<or> c = 133 \<or> c = 160 \<or> c = 5760 \<or>
     (8192 \<le> c \<and> c \<le> 8202) \<or> c = 8232 \<or> c = 8233 \<or> c = 8239 \<or> c = 8287 \<or> c = 12288"

text \<open>\<open>s.rstrip(chars)\<close>: the trailing code points that occur in \<open>chars\<close> are removed.\<close>

definition rstrip_chars :: "pystr \<Rightarrow> pystr \<Rightarrow> pystr" where
  "rstrip_chars s chars = rev (dropWhile (\<lambda>c. c \<in> set chars) (rev s))"

text \<open>\<open>s.rstrip()\<close> and \<open>s.strip()\<close>.\<close>

definition rstrip :: "pystr \<Rightarrow> pystr" where
  "rstrip s = rev (dropWhile isspace (rev s))"

definition strip :: "pystr \<Rightarrow> pystr" where
  "strip s = dropWhile isspace (rstrip s)"

text \<open>\<open>s.startswith(prefix)\<close>.\<close>

definition startswith :: "pystr \<Rightarrow> pystr \<Rightarrow> bool" where
  "startswith s pre \<longleftrightarrow> take (length pre) s = pre"

text \<open>
  \<open>s.split(sep)\<close> for a separator of one code point. The result is never empty
  (\<open>"".split(",")\<close> is \<open>[""]\<close>), so the first branch of the \<open>case\<close> is never taken.
\<close>

fun py_split :: "pystr \<Rightarrow> nat \<Rightarrow> pystr list" where
  "py_split [] sep = [[]]"
| "py_split (c # cs) sep =
     (if c = sep then [] # py_split cs sep
      else (case py_split cs sep of [] \<Rightarrow> [[c]] | p # ps \<Rightarrow> (c # p) # ps))"

text \<open>\<open>sep.join(parts)\<close>.\<close>

fun join :: "pystr \<Rightarrow> pystr list \<Rightarrow> pystr" where
  "join sep [] = []"
| "join sep [p] = p"
| "join sep (p # q # ps) = p @ sep @ join sep (q # ps)"

definition nl :: pystr where
  "nl = [10]"

definition comma :: nat where
  "comma = 44"

section \<open>Dictionaries and exceptions\<close>

text \<open>
  \<open>buckets\<close> is a \<open>dict\<close> from editor names to lists of lines; only lookups by key are
  made on it, so it is a map. \<open>d.get(k, default)\<close> and \<open>d.setdefault(k, default)\<close>
  (the dictionary after the call) are:
\<close>

type_synonym buckets = "pystr \<rightharpoonup> pystr list"

definition dict_get :: "('k \<rightharpoonup> 'v) \<Rightarrow> 'k \<Rightarrow> 'v \<Rightarrow> 'v" where
  "dict_get d k dflt = (case d k of None \<Rightarrow> dflt | Some v \<Rightarrow> v)"

definition setdefault :: "('k \<rightharpoonup> 'v) \<Rightarrow> 'k \<Rightarrow> 'v \<Rightarrow> ('k \<rightharpoonup> 'v)" where
  "setdefault d k dflt = (case d k of None \<Rightarrow> d(k \<mapsto> dflt) | Some v \<Rightarrow> d)"

text \<open>
  The exceptions of the script, each with its message (or key, or path). \<open>OSError\<close>
  stands for what \<open>Path.write_text\<close> raises when the file cannot be written.
\<close>

datatype error = ValueError pystr | KeyError pystr | SystemExit pystr | OSError pystr

section \<open>\<open>parse_base_file\<close>\<close>

definition ALL_key :: pystr where
  "ALL_key = py ''__ALL__''"

text \<open>
  The set comprehension of an \<open>::only\<close> line:
  \<open>{e.strip() for e in line[len("::only "):].split(",") if e.strip()}\<close>.
  A Python set is modelled as a list without duplicates; the order in which Python
  iterates over a set is not specified, and \<open>append_all_set\<close> below shows that the
  buckets do not depend on it.
\<close>

definition directive_editors :: "pystr \<Rightarrow> pystr list" where
  "directive_editors line =
     remdups (map strip
       (filter (\<lambda>e. strip e \<noteq> []) (py_split (drop (length (py ''::only '')) line) comma)))"

text \<open>
  The state of the loop: the dictionary \<open>buckets\<close> and the set \<open>current_editors\<close>.
\<close>

record parser_state =
  buckets :: buckets
  current_editors :: "pystr list"

text \<open>\<open>buckets.setdefault(ed, []).append(line)\<close>.\<close>

definition append_line :: "pystr \<Rightarrow> pystr \<Rightarrow> buckets \<Rightarrow> buckets" where
  "append_line line ed b = (let b' = setdefault b ed [] in b'(ed \<mapsto> dict_get b' ed [] @ [line]))"

text \<open>
  The body of the loop over the lines \<open>raw\<close> of the file. An exception leaves the loop
  (and the function), so the result is a sum.
\<close>

definition process_line :: "parser_state \<Rightarrow> pystr \<Rightarrow> error + parser_state" where
  "process_line st raw =
     (let line = rstrip_chars raw nl in
      if startswith line (py ''::only '') then
        (let editors = directive_editors line in
         if editors = [] then
           Inl (ValueError (py ''No editors specified in directive at line: '' @ line))
         else
           Inr \<lparr>buckets = fold (\<lambda>ed b. setdefault b ed []) editors (buckets st),
                current_editors = editors\<rparr>)
      else if startswith line (py ''::end'') then
        Inr (st\<lparr>current_editors := [ALL_key]\<rparr>)
      else
        Inr (st\<lparr>buckets := fold (append_line line) (current_editors st) (buckets st)\<rparr>))"

fun parse_lines :: "parser_state \<Rightarrow> pystr list \<Rightarrow> error + parser_state" where
  "parse_lines st [] = Inr st"
| "parse_lines st (raw # raws) =
     (case process_line st raw of
        Inl e \<Rightarrow> Inl e
      | Inr st' \<Rightarrow> parse_lines st' raws)"

definition initial_state :: parser_state where
  "initial_state = \<lparr>buckets = [ALL_key \<mapsto> []], current_editors = [ALL_key]\<rparr>"

text \<open>
  \<open>parse_base_file\<close>, on the strings \<open>raws\<close> that iterating over the opened file yields
  (each line of the file with its line terminator, if it has one).
\<close>

definition parse_base_file :: "pystr list \<Rightarrow> error + buckets" where
  "parse_base_file raws =
     (case parse_lines initial_state raws of
        Inl e \<Rightarrow> Inl e
      | Inr st \<Rightarrow> Inr (buckets st))"

text \<open>
  The vocabulary of the specification, over the strings that the loop reads: the
  Document is the sequence of the lines without their terminators; a line is an Open
  directive, a Close directive or content, as the two tests of the loop decide; an Open
  directive is malformed when its set of editors is empty; the identifiers mentioned are
  those of the Open directives.
\<close>

definition lines_of :: "pystr list \<Rightarrow> pystr list" where
  "lines_of raws = map (\<lambda>raw. rstrip_chars raw nl) raws"

definition is_open :: "pystr \<Rightarrow> bool" where
  "is_open line \<longleftrightarrow> startswith line (py ''::only '')"

definition is_close :: "pystr \<Rightarrow> bool" where
  "is_close line \<longleftrightarrow> \<not> startswith line (py ''::only '') \<and> startswith line (py ''::end'')"

definition is_content :: "pystr \<Rightarrow> bool" where
  "is_content line \<longleftrightarrow> \<not> startswith line (py ''::only '') \<and> \<not> startswith line (py ''::end'')"

definition malformed_directive :: "pystr \<Rightarrow> bool" where
  "malformed_directive line \<longleftrightarrow> startswith line (py ''::only '') \<and> directive_editors line = []"

definition open_editors :: "pystr \<Rightarrow> pystr set" where
  "open_editors line = (if startswith line (py ''::only '') then set (directive_editors line) else {})"

definition mentioned :: "pystr list \<Rightarrow> pystr set" where
  "mentioned raws = \<Union> (set (map open_editors (lines_of raws)))"

text \<open>
  The invariant of the loop that the proofs use: the active editors are a set, each of
  them has a bucket, and so has \<open>ALL\<close>.
\<close>

definition scope_ok :: "parser_state \<Rightarrow> bool" where
  "scope_ok st \<longleftrightarrow>
     distinct (current_editors st) \<and> set (current_editors st) \<subseteq> dom (buckets st) \<and>
     ALL_key \<in> dom (buckets st)"

section \<open>\<open>build_outputs\<close>\<close>

text \<open>
  \<open>editor_aliases\<close> and \<open>outputs\<close> are dictionaries that are iterated over, so they are
  association lists in insertion order; \<open>outputs[editor] = v\<close> is \<open>AList.update\<close>, which
  replaces the value of a key that is present and appends a new key at the end. A path
  is modelled by its string.
\<close>

definition build_outputs :: "buckets \<Rightarrow> (pystr \<times> pystr) list \<Rightarrow> (pystr \<times> pystr) list" where
  "build_outputs bs editor_aliases =
     (let common_lines = dict_get bs ALL_key [] in
      fold (\<lambda>(editor, dest) outputs.
              let lines = common_lines @ dict_get bs editor [] in
              AList.update editor (rstrip (join nl lines) @ nl) outputs)
        editor_aliases [])"

text \<open>
  The Output record of a run, as \<open>main\<close> computes it: \<open>parse_base_file\<close>, then
  \<open>build_outputs\<close> on the buckets it returns.
\<close>

definition sync_rules :: "pystr list \<Rightarrow> (pystr \<times> pystr) list \<Rightarrow> error + (pystr \<times> pystr) list" where
  "sync_rules raws editor_aliases =
     (case parse_base_file raws of
        Inl e \<Rightarrow> Inl e
      | Inr bs \<Rightarrow> Inr (build_outputs bs editor_aliases))"

section \<open>\<open>write_outputs\<close> and \<open>main\<close>\<close>

text \<open>
  The effects of the script: the files it writes and the lines it prints. The paths that
  cannot be written (a missing directory, no permission) are part of the world. A call
  that raises returns the exception with the world as it was left: the files written
  before stay written.
\<close>

record world =
  files :: "pystr \<rightharpoonup> pystr"
  stdout :: "pystr list"
  unwritable :: "pystr set"

fun write_outputs ::
  "(pystr \<times> pystr) list \<Rightarrow> (pystr \<times> pystr) list \<Rightarrow> bool \<Rightarrow> world \<Rightarrow> error option \<times> world" where
  "write_outputs [] editor_aliases dry_run w = (None, w)"
| "write_outputs ((editor, content) # outputs) editor_aliases dry_run w =
     (case map_of editor_aliases editor of
        None \<Rightarrow> (Some (KeyError editor), w)
      | Some dest_path \<Rightarrow>
          if dry_run then
            write_outputs outputs editor_aliases dry_run
              (w\<lparr>stdout := stdout w @
                 [py ''----- '' @ dest_path @ py '' (editor='' @ editor @ py '') -----'' @ nl @
                  content @ nl]\<rparr>)
          else if dest_path \<in> unwritable w then
            (Some (OSError dest_path), w)
          else
            write_outputs outputs editor_aliases dry_run
              (w\<lparr>files := (files w)(dest_path \<mapsto> content),
                 stdout := stdout w @ [py ''Wrote '' @ dest_path]\<rparr>))"

text \<open>
  \<open>main\<close> after the arguments are parsed: \<open>editor_aliases\<close> is the merged dictionary,
  \<open>base\<close> the path of the source file, \<open>base_file\<close> the strings that iterating over it
  yields (\<open>None\<close> when the file does not exist). \<open>sys.exit(message)\<close> raises
  \<open>SystemExit\<close>.
\<close>

definition main ::
  "(pystr \<times> pystr) list \<Rightarrow> pystr \<Rightarrow> pystr list option \<Rightarrow> bool \<Rightarrow> world \<Rightarrow> error option \<times> world" where
  "main editor_aliases base base_file dry_run w =
     (case base_file of
        None \<Rightarrow> (Some (SystemExit (py ''Base file '' @ [39] @ base @ [39] @ py '' not found.'')), w)
      | Some raws \<Rightarrow>
          (case parse_base_file raws of
             Inl (ValueError msg) \<Rightarrow> (Some (SystemExit msg), w)
           | Inl e \<Rightarrow> (Some e, w)
           | Inr bs \<Rightarrow>
               (let outputs = build_outputs bs editor_aliases in
                write_outputs outputs editor_aliases dry_run w)))"

section \<open>Facts about the parser and the composer\<close>

lemma fold_setdefault:
  "fold (\<lambda>ed b. setdefault b ed []) eds b = (\<lambda>k. if k \<in> set eds \<and> b k = None then Some [] else b k)"
proof (induction eds arbitrary: b)
  case Nil
  show ?case by simp
next
  case (Cons ed eds)
  show ?case
    by (simp add: Cons.IH) (auto simp: setdefault_def fun_eq_iff split: option.splits)
qed

lemma append_line_apply:
  "append_line line ed b = b(ed \<mapsto> dict_get b ed [] @ [line])"
  by (simp add: append_line_def setdefault_def dict_get_def Let_def split: option.splits)

lemma append_all_set:
  "distinct eds \<Longrightarrow>
   fold (append_line line) eds b = (\<lambda>k. if k \<in> set eds then Some (dict_get b k [] @ [line]) else b k)"
proof (induction eds arbitrary: b)
  case Nil
  show ?case by simp
next
  case (Cons ed eds)
  then show ?case
    by (auto simp: append_line_apply dict_get_def fun_eq_iff)
qed

lemma append_all_order:
  "distinct eds \<Longrightarrow> distinct eds' \<Longrightarrow> set eds = set eds' \<Longrightarrow>
   fold (append_line line) eds b = fold (append_line line) eds' b"
  by (simp add: append_all_set)

lemma parse_lines_append:
  "parse_lines st (xs @ ys) =
     (case parse_lines st xs of Inl e \<Rightarrow> Inl e | Inr st' \<Rightarrow> parse_lines st' ys)"
  by (induction xs arbitrary: st) (auto split: sum.splits)

lemma process_line_open:
  "is_open (rstrip_chars raw nl) \<Longrightarrow> process_line st raw = Inr st' \<Longrightarrow>
   directive_editors (rstrip_chars raw nl) \<noteq> [] \<and>
   current_editors st' = directive_editors (rstrip_chars raw nl) \<and>
   buckets st' = (\<lambda>k. if k \<in> set (directive_editors (rstrip_chars raw nl)) \<and> buckets st k = None
                       then Some [] else buckets st k)"
  by (auto simp: process_line_def is_open_def Let_def fold_setdefault split: if_splits)

lemma process_line_close:
  "is_close (rstrip_chars raw nl) \<Longrightarrow> process_line st raw = Inr (st\<lparr>current_editors := [ALL_key]\<rparr>)"
  by (simp add: process_line_def is_close_def Let_def)

lemma process_line_content:
  "is_content (rstrip_chars raw nl) \<Longrightarrow> distinct (current_editors st) \<Longrightarrow>
   process_line st raw =
     Inr (st\<lparr>buckets := (\<lambda>k. if k \<in> set (current_editors st)
                               then Some (dict_get (buckets st) k [] @ [rstrip_chars raw nl])
                               else buckets st k)\<rparr>)"
  by (simp add: process_line_def is_content_def Let_def append_all_set)

lemma line_kinds:
  "is_open l \<or> is_close l \<or> is_content l"
  by (auto simp: is_open_def is_close_def is_content_def)

lemma distinct_directive_editors: "distinct (directive_editors l)"
  by (simp add: directive_editors_def)

lemma process_line_inv:
  assumes "scope_ok st" and "process_line st raw = Inr st'"
  shows "scope_ok st' \<and> dom (buckets st') = dom (buckets st) \<union> open_editors (rstrip_chars raw nl)"
proof -
  let ?l = "rstrip_chars raw nl"
  consider "is_open ?l" | "is_close ?l" | "is_content ?l"
    using line_kinds by blast
  then show ?thesis
  proof cases
    case 1
    from process_line_open [OF 1 assms(2)] assms(1) show ?thesis
      using 1 by (auto simp: scope_ok_def open_editors_def is_open_def distinct_directive_editors dom_def split: if_splits)
  next
    case 2
    from process_line_close [OF 2, of st] assms show ?thesis
      using 2 by (auto simp: scope_ok_def open_editors_def is_close_def)
  next
    case 3
    from assms(1) have d: "distinct (current_editors st)" by (simp add: scope_ok_def)
    from process_line_content [OF 3 d] assms show ?thesis
      using 3 by (auto simp: scope_ok_def open_editors_def is_content_def dom_def split: if_splits)
  qed
qed

lemma parse_lines_inv:
  "scope_ok st \<Longrightarrow> parse_lines st raws = Inr st' \<Longrightarrow>
   scope_ok st' \<and> dom (buckets st') = dom (buckets st) \<union> mentioned raws"
proof (induction raws arbitrary: st)
  case Nil
  then show ?case by (simp add: mentioned_def lines_of_def)
next
  case (Cons raw raws)
  from Cons.prems(2) obtain st1 where
    s1: "process_line st raw = Inr st1" and s2: "parse_lines st1 raws = Inr st'"
    by (auto split: sum.splits)
  from process_line_inv [OF Cons.prems(1) s1] Cons.IH [OF _ s2]
  show ?case by (auto simp: mentioned_def lines_of_def)
qed

lemma scope_ok_initial: "scope_ok initial_state"
  by (simp add: scope_ok_def initial_state_def)

lemma parse_content:
  "scope_ok st \<Longrightarrow> \<forall>raw\<in>set cs. is_content (rstrip_chars raw nl) \<Longrightarrow>
   parse_lines st cs =
     Inr (st\<lparr>buckets := (\<lambda>k. if k \<in> set (current_editors st)
                               then Some (dict_get (buckets st) k [] @ lines_of cs)
                               else buckets st k)\<rparr>)"
proof (induction cs arbitrary: st)
  case Nil
  have "(\<lambda>k. if k \<in> set (current_editors st) then Some (dict_get (buckets st) k [] @ lines_of [])
             else buckets st k) = buckets st"
    using Nil.prems(1) by (auto simp: scope_ok_def dict_get_def fun_eq_iff dom_def subset_iff lines_of_def)
  then show ?case by simp
next
  case (Cons c cs)
  let ?st1 = "st\<lparr>buckets := (\<lambda>k. if k \<in> set (current_editors st)
                               then Some (dict_get (buckets st) k [] @ [rstrip_chars c nl])
                               else buckets st k)\<rparr>"
  from Cons.prems have c: "is_content (rstrip_chars c nl)" and d: "distinct (current_editors st)"
    by (simp_all add: scope_ok_def)
  have p: "process_line st c = Inr ?st1" by (rule process_line_content [OF c d])
  from process_line_inv [OF Cons.prems(1) p] have ok: "scope_ok ?st1" by simp
  from Cons.prems(2) have cs: "\<forall>raw\<in>set cs. is_content (rstrip_chars raw nl)" by simp
  show ?case
    by (simp add: p Cons.IH [OF ok cs] lines_of_def dict_get_def fun_eq_iff)
qed

lemma fold_update_lookup:
  "map_of (fold (\<lambda>(e, d) outs. AList.update e (f e) outs) al acc) T =
     (if T \<in> fst ` set al then Some (f T) else map_of acc T)"
  by (induction al arbitrary: acc) (auto simp: update_conv')

lemma build_outputs_lookup:
  "map_of (build_outputs bs al) T =
     (if T \<in> fst ` set al
      then Some (rstrip (join nl (dict_get bs ALL_key [] @ dict_get bs T [])) @ nl)
      else None)"
  unfolding build_outputs_def Let_def
  using fold_update_lookup [of "\<lambda>e. rstrip (join nl (dict_get bs ALL_key [] @ dict_get bs e [])) @ nl" al "[]" T]
  by simp

text \<open>The definitions that the evaluation of a concrete run unfolds.\<close>

lemmas eval_defs =
  sync_rules_def parse_base_file_def initial_state_def process_line_def build_outputs_def py_def
  directive_editors_def strip_def rstrip_def isspace_def comma_def rstrip_chars_def nl_def
  startswith_def append_line_def setdefault_def dict_get_def ALL_key_def

subsection \<open>Stripping trailing whitespace\<close>

lemma rstrip_decomp: "rstrip s @ rev (takeWhile isspace (rev s)) = s"
proof -
  have "rev (takeWhile isspace (rev s) @ dropWhile isspace (rev s)) = s"
    by simp
  then show ?thesis
    by (simp only: rstrip_def rev_append)
qed

lemma rstrip_last: "rstrip s = [] \<or> \<not> isspace (last (rstrip s))"
proof (cases "dropWhile isspace (rev s)")
  case Nil
  then show ?thesis by (simp add: rstrip_def)
next
  case (Cons c cs)
  then have "\<not> isspace c"
    by (metis hd_dropWhile list.distinct(1) list.sel(1))
  with Cons show ?thesis by (simp add: rstrip_def)
qed

lemma rstrip_id_iff: "rstrip s = s \<longleftrightarrow> (s = [] \<or> \<not> isspace (last s))"
proof (cases s rule: rev_cases)
  case Nil
  then show ?thesis by (simp add: rstrip_def)
next
  case (snoc xs x)
  show ?thesis
  proof (cases "isspace x")
    case True
    have "length (rstrip s) \<le> length xs"
      using True snoc length_dropWhile_le [of isspace "rev xs"] by (simp add: rstrip_def)
    then have "rstrip s \<noteq> s" using snoc by auto
    with True snoc show ?thesis by simp
  next
    case False
    with snoc show ?thesis by (simp add: rstrip_def)
  qed
qed

lemma end_not_only:
  assumes "startswith l (py ''::end'')"
  shows "\<not> startswith l (py ''::only '')"
proof
  assume a: "startswith l (py ''::only '')"
  have l7: "length (py ''::only '') = 7" and l5: "length (py ''::end'') = 5"
    by (simp_all add: py_def)
  have "take 5 l = take 5 (take (length (py ''::only '')) l)"
    by (simp add: l7)
  also have "\<dots> = take 5 (py ''::only '')"
    using a by (simp add: startswith_def)
  finally have "take 5 l = take 5 (py ''::only '')" .
  moreover from assms have "take 5 l = py ''::end''"
    by (simp add: startswith_def l5)
  ultimately show False by (simp add: py_def)
qed

subsection \<open>Raising and returning\<close>

lemma process_line_error_iff:
  "process_line st raw = Inl e \<longleftrightarrow>
     malformed_directive (rstrip_chars raw nl) \<and>
     e = ValueError (py ''No editors specified in directive at line: '' @ rstrip_chars raw nl)"
  by (auto simp: process_line_def malformed_directive_def Let_def)

lemma parse_lines_raises:
  "find malformed_directive (lines_of raws) = Some l \<Longrightarrow>
   parse_lines st raws = Inl (ValueError (py ''No editors specified in directive at line: '' @ l))"
proof (induction raws arbitrary: st)
  case Nil
  then show ?case by (simp add: lines_of_def)
next
  case (Cons raw raws)
  show ?case
  proof (cases "malformed_directive (rstrip_chars raw nl)")
    case True
    with Cons.prems have "l = rstrip_chars raw nl" by (simp add: lines_of_def)
    with True show ?thesis by (simp add: process_line_error_iff [THEN iffD2])
  next
    case False
    then obtain st1 where s: "process_line st raw = Inr st1"
      using process_line_error_iff [of st raw] by (cases "process_line st raw") auto
    from False Cons.prems have "find malformed_directive (lines_of raws) = Some l"
      by (simp add: lines_of_def)
    from Cons.IH [OF this] s show ?thesis by simp
  qed
qed

lemma parse_lines_returns:
  "find malformed_directive (lines_of raws) = None \<Longrightarrow> \<exists>st'. parse_lines st raws = Inr st'"
proof (induction raws arbitrary: st)
  case Nil
  show ?case by simp
next
  case (Cons raw raws)
  from Cons.prems have n: "\<not> malformed_directive (rstrip_chars raw nl)"
    and r: "find malformed_directive (lines_of raws) = None"
    by (simp_all add: lines_of_def split: if_splits)
  from n obtain st1 where s: "process_line st raw = Inr st1"
    using process_line_error_iff [of st raw] by (cases "process_line st raw") auto
  from Cons.IH [OF r, of st1] s show ?case by simp
qed

lemma dom_parse_base_file:
  assumes "parse_base_file raws = Inr bs"
  shows "dom bs = insert ALL_key (mentioned raws)"
proof -
  from assms obtain st where s: "parse_lines initial_state raws = Inr st" and b: "bs = buckets st"
    by (auto simp: parse_base_file_def split: sum.splits)
  from parse_lines_inv [OF scope_ok_initial s] b show ?thesis
    by (simp add: initial_state_def)
qed

lemma parse_lines_prefix:
  "parse_lines st raws = Inr st' \<Longrightarrow> \<exists>st1. parse_lines st (take n raws) = Inr st1"
proof -
  assume "parse_lines st raws = Inr st'"
  then have "parse_lines st (take n raws @ drop n raws) = Inr st'" by simp
  then show ?thesis
    unfolding parse_lines_append by (cases "parse_lines st (take n raws)") auto
qed

subsection \<open>Documents without directives\<close>

lemma join_last:
  "ls \<noteq> [] \<Longrightarrow> last ls \<noteq> [] \<Longrightarrow> join sep ls \<noteq> [] \<and> last (join sep ls) = last (last ls)"
  by (induction sep ls rule: join.induct) auto

lemma parse_base_file_no_directives:
  assumes "\<forall>raw\<in>set raws. is_content (rstrip_chars raw nl)"
  shows "parse_base_file raws = Inr [ALL_key \<mapsto> lines_of raws]"
proof -
  have "(\<lambda>k. if k \<in> set (current_editors initial_state)
             then Some (dict_get (buckets initial_state) k [] @ lines_of raws)
             else buckets initial_state k) = [ALL_key \<mapsto> lines_of raws]"
    by (auto simp: initial_state_def dict_get_def fun_eq_iff)
  with parse_content [OF scope_ok_initial assms] show ?thesis
    by (simp add: parse_base_file_def)
qed

lemma parse_lines_snoc:
  "parse_lines st (xs @ [x]) = Inr st' \<Longrightarrow>
   \<exists>st0. parse_lines st xs = Inr st0 \<and> process_line st0 x = Inr st'"
  by (auto simp: parse_lines_append split: sum.splits)

subsection \<open>Buckets only grow\<close>

lemma process_line_grows:
  assumes "scope_ok st" and "process_line st raw = Inr st'"
  shows "\<exists>v. dict_get (buckets st') k [] = dict_get (buckets st) k [] @ v"
proof -
  let ?l = "rstrip_chars raw nl"
  consider "is_open ?l" | "is_close ?l" | "is_content ?l"
    using line_kinds by blast
  then show ?thesis
  proof cases
    case 1
    from process_line_open [OF 1 assms(2)] show ?thesis
      by (simp add: dict_get_def)
  next
    case 2
    from process_line_close [OF 2, of st] assms(2) show ?thesis
      by auto
  next
    case 3
    from assms(1) have d: "distinct (current_editors st)" by (simp add: scope_ok_def)
    from process_line_content [OF 3 d] assms(2) show ?thesis
      by (auto simp: dict_get_def)
  qed
qed

lemma parse_lines_grows:
  "scope_ok st \<Longrightarrow> parse_lines st raws = Inr st' \<Longrightarrow>
   \<exists>v. dict_get (buckets st') k [] = dict_get (buckets st) k [] @ v"
proof (induction raws arbitrary: st)
  case Nil
  then show ?case by simp
next
  case (Cons raw raws)
  from Cons.prems(2) obtain st1 where
    s1: "process_line st raw = Inr st1" and s2: "parse_lines st1 raws = Inr st'"
    by (auto split: sum.splits)
  from process_line_inv [OF Cons.prems(1) s1] have ok: "scope_ok st1" by simp
  from process_line_grows [OF Cons.prems(1) s1, of k] obtain v1
    where v1: "dict_get (buckets st1) k [] = dict_get (buckets st) k [] @ v1" ..
  from Cons.IH [OF ok s2] obtain v2
    where v2: "dict_get (buckets st') k [] = dict_get (buckets st1) k [] @ v2" ..
  from v1 v2 show ?case by simp
qed

lemma join_append:
  "xs \<noteq> [] \<Longrightarrow> ys \<noteq> [] \<Longrightarrow> join sep (xs @ ys) = join sep xs @ sep @ join sep ys"
proof (induction sep xs rule: join.induct)
  case (1 sep)
  then show ?case by simp
next
  case (2 sep p)
  then show ?case by (cases ys) simp_all
next
  case (3 sep p q ps)
  then show ?case by simp
qed

lemma join_infix:
  assumes "cs \<noteq> []"
  shows "\<exists>p. join sep (u @ cs @ w) = p @ join sep cs @ (if w = [] then [] else sep @ join sep w)"
proof -
  have 1: "join sep (cs @ w) = join sep cs @ (if w = [] then [] else sep @ join sep w)"
    using assms by (simp add: join_append)
  show ?thesis
  proof (cases "u = []")
    case True
    with 1 have "join sep (u @ cs @ w) = [] @ join sep cs @ (if w = [] then [] else sep @ join sep w)"
      by simp
    then show ?thesis ..
  next
    case False
    from assms have "cs @ w \<noteq> []" by simp
    from join_append [OF False this, of sep] 1
    have "join sep (u @ cs @ w) = (join sep u @ sep) @ join sep cs @ (if w = [] then [] else sep @ join sep w)"
      by simp
    then show ?thesis ..
  qed
qed

lemma set_join: "l \<in> set ls \<Longrightarrow> set l \<subseteq> set (join sep ls)"
  by (induction sep ls rule: join.induct) auto

lemma rstrip_keeps:
  assumes "x \<noteq> []" and "\<not> isspace (last x)"
  shows "\<exists>z. rstrip (x @ y) = x @ z"
proof -
  from assms have d: "dropWhile isspace (rev x) = rev x"
    by (cases x rule: rev_cases) simp_all
  show ?thesis
  proof (cases "\<forall>c\<in>set (rev y). isspace c")
    case True
    then have "rstrip (x @ y) = x @ []"
      by (simp add: rstrip_def dropWhile_append d)
    then show ?thesis ..
  next
    case False
    then have "rstrip (x @ y) = x @ rev (dropWhile isspace (rev y))"
      by (auto simp: rstrip_def dropWhile_append)
    then show ?thesis ..
  qed
qed

lemma rstrip_keeps_before:
  assumes "c \<in> set y" and "\<not> isspace c"
  shows "rstrip (x @ y) = x @ rstrip y"
proof -
  from assms have "\<not> (\<forall>c\<in>set (rev y). isspace c)" by auto
  then show ?thesis
    by (auto simp: rstrip_def dropWhile_append)
qed

lemma only_ALL_editors: "directive_editors (py ''::only __ALL__'') = [ALL_key]"
  by (simp add: eval_defs)

lemma only_ALL_open: "is_open (py ''::only __ALL__'')"
  by (simp add: is_open_def eval_defs)

section \<open>The claims\<close>

text \<open>
  C1, as amended. For the document with the lines \<open>A\<close>, \<open>::only x\<close>, \<open>B\<close>, \<open>::end\<close>,
  \<open>C\<close> (with or without their line terminators) and the targets \<open>x\<close> and \<open>y\<close>, the
  output of \<open>x\<close> is \<^verbatim>\<open>A\nC\nB\n\<close>: the shared lines \<open>A\<close> and \<open>C\<close> first, the line
  \<open>B\<close> of \<open>x\<close> after them. The output of \<open>y\<close> is \<^verbatim>\<open>A\nC\n\<close>.
\<close>

theorem example_1_outputs:
  "sync_rules (map py [''A'', ''::only x'', ''B'', ''::end'', ''C''])
     [(py ''x'', dest_x), (py ''y'', dest_y)] =
   Inr [(py ''x'', py ''A\<newline>C\<newline>B\<newline>''), (py ''y'', py ''A\<newline>C\<newline>'')] \<and>
   sync_rules (map py [''A\<newline>'', ''::only x\<newline>'', ''B\<newline>'', ''::end\<newline>'', ''C\<newline>''])
     [(py ''x'', dest_x), (py ''y'', dest_y)] =
   Inr [(py ''x'', py ''A\<newline>C\<newline>B\<newline>''), (py ''y'', py ''A\<newline>C\<newline>'')]"
  by (simp add: eval_defs)

text \<open>
  The output that the example of the specification expects for \<open>x\<close>, with \<open>B\<close> between
  \<open>A\<close> and \<open>C\<close>, is not the one computed.
\<close>

theorem example_1_counterexample:
  "map_of (projr (sync_rules (map py [''A'', ''::only x'', ''B'', ''::end'', ''C''])
             [(py ''x'', py ''X.md''), (py ''y'', py ''Y.md'')])) (py ''x'') =
     Some (py ''A\<newline>C\<newline>B\<newline>'') \<and>
   map_of (projr (sync_rules (map py [''A'', ''::only x'', ''B'', ''::end'', ''C''])
             [(py ''x'', py ''X.md''), (py ''y'', py ''Y.md'')])) (py ''x'') \<noteq>
     Some (py ''A\<newline>B\<newline>C\<newline>'')"
  by (simp add: eval_defs)

text \<open>
  C2. For every bucket map and every target of the registry, the output of the target is
  the lines of the shared bucket followed by the lines of the target's own bucket (none
  when it has no bucket), joined by single newlines, with the trailing whitespace
  stripped and one newline appended. What is stripped is a run of whitespace at the
  end of the joined text, and what is left does not end in whitespace.
\<close>

theorem composed_output:
  assumes "T \<in> fst ` set editor_aliases"
  shows "(let joined = join nl (dict_get bs ALL_key [] @ dict_get bs T []);
              body = rstrip joined
          in map_of (build_outputs bs editor_aliases) T = Some (body @ nl) \<and>
             (\<exists>ws. joined = body @ ws \<and> (\<forall>c\<in>set ws. isspace c)) \<and>
             (body = [] \<or> \<not> isspace (last body)))"
proof -
  let ?J = "join nl (dict_get bs ALL_key [] @ dict_get bs T [])"
  have 1: "map_of (build_outputs bs editor_aliases) T = Some (rstrip ?J @ nl)"
    using assms by (simp add: build_outputs_lookup)
  have "?J = rstrip ?J @ rev (takeWhile isspace (rev ?J))"
    by (simp only: rstrip_decomp)
  moreover have "\<forall>c\<in>set (rev (takeWhile isspace (rev ?J))). isspace c"
    by (auto dest: set_takeWhileD)
  ultimately have 2: "\<exists>ws. ?J = rstrip ?J @ ws \<and> (\<forall>c\<in>set ws. isspace c)"
    by blast
  show ?thesis
    unfolding Let_def using 1 2 rstrip_last [of ?J] by blast
qed

theorem composed_output_witness:
  "map_of (build_outputs [ALL_key \<mapsto> [py ''A'', py '' ''], py ''x'' \<mapsto> [py ''B  '', []]]
             [(py ''y'', py ''Y.md''), (py ''x'', py ''X.md'')]) (py ''x'') =
     Some (py ''A\<newline> \<newline>B\<newline>'')"
  using composed_output [of "py ''x''" "[(py ''y'', py ''Y.md''), (py ''x'', py ''X.md'')]"
      "[ALL_key \<mapsto> [py ''A'', py '' ''], py ''x'' \<mapsto> [py ''B  '', []]]"]
  by (simp add: eval_defs)

text \<open>
  C6. A line that begins with \<open>::end\<close> sets the active editors to the shared one alone,
  whatever follows the prefix: it does what the bare \<open>::end\<close> does. When the shared
  editor alone is active already, the state is unchanged, and a second such line
  changes nothing.
\<close>

theorem close_resets_scope:
  assumes "startswith (rstrip_chars raw nl) (py ''::end'')"
  shows "process_line st raw = Inr (st\<lparr>current_editors := [ALL_key]\<rparr>) \<and>
         process_line st raw = process_line st (py ''::end'') \<and>
         (current_editors st = [ALL_key] \<longrightarrow> process_line st raw = Inr st) \<and>
         parse_lines st [raw, raw] = parse_lines st [raw]"
proof -
  from assms have c: "is_close (rstrip_chars raw nl)"
    by (simp add: is_close_def end_not_only)
  have b: "is_close (rstrip_chars (py ''::end'') nl)"
    by (simp add: is_close_def rstrip_chars_def startswith_def py_def nl_def)
  have 1: "process_line st' raw = Inr (st'\<lparr>current_editors := [ALL_key]\<rparr>)" for st'
    by (rule process_line_close [OF c])
  have 2: "process_line st (py ''::end'') = Inr (st\<lparr>current_editors := [ALL_key]\<rparr>)"
    by (rule process_line_close [OF b])
  have 3: "current_editors st = [ALL_key] \<longrightarrow> st\<lparr>current_editors := [ALL_key]\<rparr> = st"
    by auto
  show ?thesis using 3 by (simp add: 1 2)
qed

theorem close_resets_scope_witness:
  "process_line \<lparr>buckets = [ALL_key \<mapsto> [], py ''x'' \<mapsto> [py ''B'']], current_editors = [py ''x'']\<rparr>
     (py ''::endless trailing text\<newline>'') =
   Inr \<lparr>buckets = [ALL_key \<mapsto> [], py ''x'' \<mapsto> [py ''B'']], current_editors = [ALL_key]\<rparr> \<and>
   process_line initial_state (py ''::end of x'') = Inr initial_state"
proof -
  have a: "startswith (rstrip_chars (py ''::endless trailing text\<newline>'') nl) (py ''::end'')"
    by (simp add: rstrip_chars_def startswith_def py_def nl_def)
  have b: "startswith (rstrip_chars (py ''::end of x'') nl) (py ''::end'')"
    by (simp add: rstrip_chars_def startswith_def py_def nl_def)
  have c: "current_editors initial_state = [ALL_key]"
    by (simp add: initial_state_def)
  show ?thesis
    using close_resets_scope [OF a,
        of "\<lparr>buckets = [ALL_key \<mapsto> [], py ''x'' \<mapsto> [py ''B'']], current_editors = [py ''x'']\<rparr>"]
      close_resets_scope [OF b, of initial_state] c
    by simp
qed

text \<open>
  C9. The output of a target depends on the shared bucket and on the target's own bucket
  only: two bucket maps that agree on both give the same output for it, in whatever
  registries the target stands, and the outputs of a registry do not depend on the order
  of its entries. \<open>build_outputs\<close> reads the bucket map with \<open>get\<close> and builds new
  lists with \<open>+\<close>, so it has no bucket map to return.
\<close>

theorem composition_noninterference:
  assumes "bs1 ALL_key = bs2 ALL_key" and "bs1 T = bs2 T"
    and "T \<in> fst ` set aliases1" and "T \<in> fst ` set aliases2"
  shows "map_of (build_outputs bs1 aliases1) T = map_of (build_outputs bs2 aliases2) T \<and>
         (fst ` set aliases1 = fst ` set aliases2 \<longrightarrow>
            map_of (build_outputs bs1 aliases1) = map_of (build_outputs bs1 aliases2))"
  using assms by (auto simp: build_outputs_lookup dict_get_def fun_eq_iff)

theorem composition_noninterference_witness:
  "map_of (build_outputs [ALL_key \<mapsto> [py ''A''], py ''x'' \<mapsto> [py ''B''], py ''y'' \<mapsto> [py ''C'']]
            [(py ''x'', py ''X.md''), (py ''y'', py ''Y.md'')]) (py ''x'') =
   map_of (build_outputs [ALL_key \<mapsto> [py ''A''], py ''x'' \<mapsto> [py ''B''], py ''z'' \<mapsto> [py ''D'']]
            [(py ''z'', py ''Z.md''), (py ''x'', py ''X.md'')]) (py ''x'')"
proof -
  have k: "py ''x'' \<noteq> py ''y''" "py ''x'' \<noteq> py ''z''" "py ''x'' \<noteq> ALL_key"
          "py ''y'' \<noteq> ALL_key" "py ''z'' \<noteq> ALL_key"
    by (simp_all add: py_def ALL_key_def)
  show ?thesis
    using composition_noninterference [of
        "[ALL_key \<mapsto> [py ''A''], py ''x'' \<mapsto> [py ''B''], py ''y'' \<mapsto> [py ''C'']]"
        "[ALL_key \<mapsto> [py ''A''], py ''x'' \<mapsto> [py ''B''], py ''z'' \<mapsto> [py ''D'']]"
        "py ''x''" "[(py ''x'', py ''X.md''), (py ''y'', py ''Y.md'')]"
        "[(py ''z'', py ''Z.md''), (py ''x'', py ''X.md'')]"] k
    by simp
qed

text \<open>
  C3. \<open>parse_base_file\<close> raises if and only if some line of the document is an
  \<open>::only\<close> line whose set of editors is empty. When there is none it returns a bucket
  map. When there is one, the exception is raised at the first such line and its message
  ends with the text of that line; no Output record is computed, and \<open>main\<close> exits
  with that message and leaves the world as it was: no file is written and nothing is
  printed.
\<close>

theorem malformed_directive_raises:
  "(case find malformed_directive (lines_of raws) of
      None \<Rightarrow> (\<exists>bs. parse_base_file raws = Inr bs)
    | Some l \<Rightarrow>
        parse_base_file raws =
          Inl (ValueError (py ''No editors specified in directive at line: '' @ l)) \<and>
        sync_rules raws editor_aliases =
          Inl (ValueError (py ''No editors specified in directive at line: '' @ l)) \<and>
        main editor_aliases base (Some raws) dry_run w =
          (Some (SystemExit (py ''No editors specified in directive at line: '' @ l)), w))"
proof (cases "find malformed_directive (lines_of raws)")
  case None
  from parse_lines_returns [OF None, of initial_state] show ?thesis
    by (auto simp: None parse_base_file_def)
next
  case (Some l)
  from parse_lines_raises [OF Some, of initial_state] show ?thesis
    by (simp add: Some parse_base_file_def sync_rules_def main_def)
qed

theorem malformed_directive_raises_witness:
  "parse_base_file (map py [''A\<newline>'', ''::only x\<newline>'', ''B\<newline>'', ''::only   ,  ,\<newline>'', ''::only\<newline>'', ''::only ,''])
     = Inl (ValueError (py ''No editors specified in directive at line: ::only   ,  ,'')) \<and>
   main [(py ''x'', py ''X.md'')] (py ''agentic_rules.md'')
     (Some (map py [''A\<newline>'', ''::only x\<newline>'', ''B\<newline>'', ''::only   ,  ,\<newline>'', ''::only\<newline>'', ''::only ,'']))
     False \<lparr>files = Map.empty, stdout = [], unwritable = {}\<rparr>
     = (Some (SystemExit (py ''No editors specified in directive at line: ::only   ,  ,'')),
        \<lparr>files = Map.empty, stdout = [], unwritable = {}\<rparr>)"
proof -
  have f: "find malformed_directive
             (lines_of (map py [''A\<newline>'', ''::only x\<newline>'', ''B\<newline>'', ''::only   ,  ,\<newline>'', ''::only\<newline>'', ''::only ,'']))
           = Some (py ''::only   ,  ,'')"
    by (simp add: lines_of_def malformed_directive_def eval_defs)
  from malformed_directive_raises [of
      "map py [''A\<newline>'', ''::only x\<newline>'', ''B\<newline>'', ''::only   ,  ,\<newline>'', ''::only\<newline>'', ''::only ,'']"
      "[(py ''x'', py ''X.md'')]" "py ''agentic_rules.md''" False
      "\<lparr>files = Map.empty, stdout = [], unwritable = {}\<rparr>"]
  have "parse_base_file (map py [''A\<newline>'', ''::only x\<newline>'', ''B\<newline>'', ''::only   ,  ,\<newline>'', ''::only\<newline>'', ''::only ,''])
      = Inl (ValueError (py ''No editors specified in directive at line: '' @ py ''::only   ,  ,'')) \<and>
    main [(py ''x'', py ''X.md'')] (py ''agentic_rules.md'')
      (Some (map py [''A\<newline>'', ''::only x\<newline>'', ''B\<newline>'', ''::only   ,  ,\<newline>'', ''::only\<newline>'', ''::only ,'']))
      False \<lparr>files = Map.empty, stdout = [], unwritable = {}\<rparr>
      = (Some (SystemExit (py ''No editors specified in directive at line: '' @ py ''::only   ,  ,'')),
         \<lparr>files = Map.empty, stdout = [], unwritable = {}\<rparr>)"
    by (simp only: f option.case)
  then show ?thesis
    by (simp add: py_def)
qed

text \<open>
  C8. After the loop has processed any sequence of lines without raising, the shared
  bucket exists and so does the bucket of every identifier that an \<open>::only\<close> line has
  named so far. This holds for the bucket map that \<open>parse_base_file\<close> returns, and every
  prefix of a document that it parses is processed without raising.
\<close>

theorem buckets_exist:
  "(parse_lines initial_state pre = Inr st \<longrightarrow>
      ALL_key \<in> dom (buckets st) \<and> mentioned pre \<subseteq> dom (buckets st)) \<and>
   (parse_base_file raws = Inr bs \<longrightarrow>
      ALL_key \<in> dom bs \<and> mentioned raws \<subseteq> dom bs \<and>
      (\<exists>st1. parse_lines initial_state (take n raws) = Inr st1 \<and>
             ALL_key \<in> dom (buckets st1) \<and> mentioned (take n raws) \<subseteq> dom (buckets st1)))"
proof -
  have 1: "ALL_key \<in> dom (buckets st') \<and> mentioned xs \<subseteq> dom (buckets st')"
    if "parse_lines initial_state xs = Inr st'" for xs st'
    using parse_lines_inv [OF scope_ok_initial that] by (auto simp: initial_state_def)
  have 2: "\<exists>st1. parse_lines initial_state (take n raws) = Inr st1 \<and>
             ALL_key \<in> dom (buckets st1) \<and> mentioned (take n raws) \<subseteq> dom (buckets st1)"
    if "parse_base_file raws = Inr bs"
  proof -
    from that obtain st' where "parse_lines initial_state raws = Inr st'"
      by (auto simp: parse_base_file_def split: sum.splits)
    from parse_lines_prefix [OF this, of n] obtain st1
      where "parse_lines initial_state (take n raws) = Inr st1" ..
    with 1 [OF this] show ?thesis by blast
  qed
  have 3: "ALL_key \<in> dom bs \<and> mentioned raws \<subseteq> dom bs" if "parse_base_file raws = Inr bs"
    using dom_parse_base_file [OF that] by auto
  show ?thesis using 1 2 3 by blast
qed

theorem buckets_exist_witness:
  "mentioned (map py [''::only x, y'', ''B'', ''::only z'']) = {py ''x'', py ''y'', py ''z''} \<and>
   {ALL_key, py ''x'', py ''y'', py ''z''} \<subseteq>
     dom (buckets (projr (parse_lines initial_state (map py [''::only x, y'', ''B'', ''::only z''])))) \<and>
   buckets (projr (parse_lines initial_state (map py [''::only x, y'', ''B'', ''::only z''])))
     (py ''z'') = Some []"
proof -
  let ?doc = "map py [''::only x, y'', ''B'', ''::only z'']"
  have p: "parse_lines initial_state ?doc = Inr (projr (parse_lines initial_state ?doc))"
    by (simp add: eval_defs Let_def)
  have m: "mentioned ?doc = {py ''x'', py ''y'', py ''z''}"
    by (auto simp: mentioned_def lines_of_def open_editors_def eval_defs Let_def)
  have z: "buckets (projr (parse_lines initial_state ?doc)) (py ''z'') = Some []"
    by (simp add: eval_defs Let_def)
  have q: "parse_base_file ?doc = Inr (buckets (projr (parse_lines initial_state ?doc)))"
    unfolding parse_base_file_def by (subst p) simp
  from buckets_exist [of ?doc "projr (parse_lines initial_state ?doc)" ?doc
      "buckets (projr (parse_lines initial_state ?doc))" 1] p q m z
  show ?thesis
    by simp
qed

text \<open>
  C4, as amended. For every document without directive lines, the bucket map holds the
  shared bucket alone, with all the lines of the document, and the output of every target
  of the registry other than \<open>__ALL__\<close> is the lines joined by single newlines, with the
  trailing whitespace stripped and one newline appended. It is the joined lines plus one
  newline, a lossless copy, exactly when the joined text is empty or does not end in
  whitespace.
\<close>

theorem no_directives_output:
  assumes "\<forall>raw\<in>set raws. is_content (rstrip_chars raw nl)"
    and "T \<in> fst ` set editor_aliases" and "T \<noteq> ALL_key"
  shows "parse_base_file raws = Inr [ALL_key \<mapsto> lines_of raws] \<and>
         sync_rules raws editor_aliases = Inr (build_outputs [ALL_key \<mapsto> lines_of raws] editor_aliases) \<and>
         map_of (build_outputs [ALL_key \<mapsto> lines_of raws] editor_aliases) T =
           Some (rstrip (join nl (lines_of raws)) @ nl) \<and>
         (map_of (build_outputs [ALL_key \<mapsto> lines_of raws] editor_aliases) T =
            Some (join nl (lines_of raws) @ nl) \<longleftrightarrow>
          join nl (lines_of raws) = [] \<or> \<not> isspace (last (join nl (lines_of raws))))"
proof -
  have p: "parse_base_file raws = Inr [ALL_key \<mapsto> lines_of raws]"
    by (rule parse_base_file_no_directives [OF assms(1)])
  have o: "map_of (build_outputs [ALL_key \<mapsto> lines_of raws] editor_aliases) T =
           Some (rstrip (join nl (lines_of raws)) @ nl)"
    using assms(2,3) by (simp add: build_outputs_lookup dict_get_def)
  show ?thesis
    using rstrip_id_iff [of "join nl (lines_of raws)"] by (simp add: p o sync_rules_def)
qed

theorem no_directives_output_witness:
  "map_of (build_outputs
      [ALL_key \<mapsto> lines_of [py ''# Rules\<newline>'', py ''\<newline>'', py ''::onlyx\<newline>'', py '' ::end'', py ''be kind'']]
      [(py ''windsurf'', py ''.windsurfrules''), (py ''codex'', py ''AGENTS.md'')]) (py ''codex'') =
     Some (py ''# Rules\<newline>\<newline>::onlyx\<newline> ::end\<newline>be kind\<newline>'')"
proof -
  let ?doc = "[py ''# Rules\<newline>'', py ''\<newline>'', py ''::onlyx\<newline>'', py '' ::end'', py ''be kind'']"
  let ?reg = "[(py ''windsurf'', py ''.windsurfrules''), (py ''codex'', py ''AGENTS.md'')]"
  have c: "\<forall>raw\<in>set ?doc. is_content (rstrip_chars raw nl)"
    by (simp add: is_content_def eval_defs)
  have t: "py ''codex'' \<in> fst ` set ?reg"
    by simp
  have n: "py ''codex'' \<noteq> ALL_key"
    by (simp add: eval_defs)
  have j: "join nl (lines_of ?doc) = py ''# Rules\<newline>\<newline>::onlyx\<newline> ::end\<newline>be kind''"
    by (simp add: lines_of_def eval_defs)
  have s: "\<not> isspace (last (py ''# Rules\<newline>\<newline>::onlyx\<newline> ::end\<newline>be kind''))"
    by (simp add: eval_defs)
  have e: "py ''# Rules\<newline>\<newline>::onlyx\<newline> ::end\<newline>be kind'' @ nl =
           py ''# Rules\<newline>\<newline>::onlyx\<newline> ::end\<newline>be kind\<newline>''"
    by (simp add: py_def nl_def)
  from no_directives_output [OF c t n]
  have "map_of (build_outputs [ALL_key \<mapsto> lines_of ?doc] ?reg) (py ''codex'') =
          Some (join nl (lines_of ?doc) @ nl)"
    using s unfolding j by blast
  then show ?thesis
    unfolding j e .
qed

text \<open>
  The claim as it was stated fails on a line that ends in a blank, which the output
  loses, and on a registry that holds the target \<open>__ALL__\<close>, whose own bucket is the shared
  one, so that its output has every line twice.
\<close>

theorem no_directives_counterexample:
  "is_content (rstrip_chars (py ''A '') nl) \<and>
   map_of (projr (sync_rules [py ''A ''] [(py ''x'', py ''X.md'')])) (py ''x'') = Some (py ''A\<newline>'') \<and>
   map_of (projr (sync_rules [py ''A ''] [(py ''x'', py ''X.md'')])) (py ''x'') \<noteq>
     Some (join nl (lines_of [py ''A '']) @ nl) \<and>
   is_content (rstrip_chars (py ''A'') nl) \<and>
   map_of (projr (sync_rules [py ''A''] [(ALL_key, py ''all.md'')])) ALL_key = Some (py ''A\<newline>A\<newline>'') \<and>
   map_of (projr (sync_rules [py ''A''] [(ALL_key, py ''all.md'')])) ALL_key \<noteq>
     Some (join nl (lines_of [py ''A'']) @ nl)"
  by (simp add: is_content_def lines_of_def eval_defs)

text \<open>
  C7, as amended. For every document that parses and every target of the registry other
  than \<open>__ALL__\<close> that no \<open>::only\<close> line names, the output is the composition of the
  shared bucket alone; any two such targets have the same output; and the Output record
  is computed without an exception.
\<close>

theorem unmentioned_target_output:
  assumes "parse_base_file raws = Inr bs"
    and "T \<in> fst ` set editor_aliases" and "T \<noteq> ALL_key" and "T \<notin> mentioned raws"
    and "T' \<in> fst ` set editor_aliases" and "T' \<noteq> ALL_key" and "T' \<notin> mentioned raws"
  shows "map_of (build_outputs bs editor_aliases) T =
           Some (rstrip (join nl (dict_get bs ALL_key [])) @ nl) \<and>
         map_of (build_outputs bs editor_aliases) T' = map_of (build_outputs bs editor_aliases) T \<and>
         sync_rules raws editor_aliases = Inr (build_outputs bs editor_aliases)"
proof -
  from dom_parse_base_file [OF assms(1)] assms(3,4,6,7) have "bs T = None" and "bs T' = None"
    by auto
  with assms(1,2,5) show ?thesis
    by (simp add: build_outputs_lookup dict_get_def sync_rules_def)
qed

theorem unmentioned_target_output_witness:
  "map_of (build_outputs (projr (parse_base_file [py ''::only x,y'', py ''shared-ish'', py ''::end'']))
      [(py ''x'', py ''X''), (py ''y'', py ''Y''), (py ''z'', py ''Z''), (py ''w'', py ''W'')]) (py ''z'') =
     Some (py ''\<newline>'') \<and>
   map_of (build_outputs (projr (parse_base_file [py ''::only x,y'', py ''shared-ish'', py ''::end'']))
      [(py ''x'', py ''X''), (py ''y'', py ''Y''), (py ''z'', py ''Z''), (py ''w'', py ''W'')]) (py ''w'') =
     Some (py ''\<newline>'')"
proof -
  let ?doc = "[py ''::only x,y'', py ''shared-ish'', py ''::end'']"
  let ?reg = "[(py ''x'', py ''X''), (py ''y'', py ''Y''), (py ''z'', py ''Z''), (py ''w'', py ''W'')]"
  let ?bs = "projr (parse_base_file ?doc)"
  have q: "parse_base_file ?doc = Inr ?bs"
    by (simp add: eval_defs Let_def)
  have m: "mentioned ?doc = {py ''x'', py ''y''}"
    by (auto simp: mentioned_def lines_of_def open_editors_def eval_defs Let_def)
  have k: "py ''z'' \<noteq> ALL_key" "py ''w'' \<noteq> ALL_key"
    by (simp_all add: eval_defs)
  have k': "py ''z'' \<notin> mentioned ?doc" "py ''w'' \<notin> mentioned ?doc"
    unfolding m by (simp_all add: py_def)
  have r: "py ''z'' \<in> fst ` set ?reg" "py ''w'' \<in> fst ` set ?reg"
    by simp_all
  have a: "rstrip (join nl (dict_get ?bs ALL_key [])) @ nl = py ''\<newline>''"
    by (simp add: eval_defs Let_def)
  from unmentioned_target_output [OF q r(1) k(1) k'(1) r(2) k(2) k'(2)]
  show ?thesis
    unfolding a by simp
qed

text \<open>
  The claim as it was stated fails for the target \<open>__ALL__\<close>: no \<open>::only\<close> line names it,
  and its output is the shared lines twice, unlike that of the other unnamed target.
\<close>

theorem unmentioned_target_counterexample:
  "mentioned [py ''A''] = {} \<and>
   map_of (projr (sync_rules [py ''A''] [(ALL_key, py ''all.md''), (py ''y'', py ''Y.md'')])) ALL_key =
     Some (py ''A\<newline>A\<newline>'') \<and>
   map_of (projr (sync_rules [py ''A''] [(ALL_key, py ''all.md''), (py ''y'', py ''Y.md'')])) ALL_key \<noteq>
     Some (rstrip (join nl (dict_get (projr (parse_base_file [py ''A''])) ALL_key [])) @ nl) \<and>
   map_of (projr (sync_rules [py ''A''] [(ALL_key, py ''all.md''), (py ''y'', py ''Y.md'')])) ALL_key \<noteq>
     map_of (projr (sync_rules [py ''A''] [(ALL_key, py ''all.md''), (py ''y'', py ''Y.md'')])) (py ''y'')"
  by (simp add: mentioned_def lines_of_def open_editors_def eval_defs)

text \<open>
  C5. An \<open>::only\<close> line replaces the active editors. In a document where an \<open>::only\<close>
  line is followed by content lines and a second \<open>::only\<close> line, with no \<open>::end\<close> between
  them, the active editors after the second line are the editors it names, and the content
  lines that follow it are appended to the buckets of these editors and to no other
  bucket: in particular the bucket of an editor that only the first line names stays as
  it was.
\<close>

theorem open_replaces_scope:
  assumes "is_open (rstrip_chars d1 nl)" and "is_open (rstrip_chars d2 nl)"
    and "\<forall>raw\<in>set mid. is_content (rstrip_chars raw nl)"
    and "\<forall>raw\<in>set cs. is_content (rstrip_chars raw nl)"
    and "parse_lines initial_state (pre @ d1 # mid @ [d2]) = Inr st1"
  shows "current_editors st1 = directive_editors (rstrip_chars d2 nl) \<and>
         (\<exists>st2. parse_lines initial_state (pre @ d1 # mid @ d2 # cs) = Inr st2 \<and>
            current_editors st2 = directive_editors (rstrip_chars d2 nl) \<and>
            (\<forall>k\<in>set (directive_editors (rstrip_chars d2 nl)).
               buckets st2 k = Some (dict_get (buckets st1) k [] @ lines_of cs)) \<and>
            (\<forall>k. k \<notin> set (directive_editors (rstrip_chars d2 nl)) \<longrightarrow> buckets st2 k = buckets st1 k) \<and>
            (\<forall>k\<in>set (directive_editors (rstrip_chars d1 nl)) - set (directive_editors (rstrip_chars d2 nl)).
               buckets st2 k = buckets st1 k))"
proof -
  let ?eds = "directive_editors (rstrip_chars d2 nl)"
  have split1: "pre @ d1 # mid @ [d2] = (pre @ d1 # mid) @ [d2]" by simp
  from assms(5) obtain st0 where
    s0: "parse_lines initial_state (pre @ d1 # mid) = Inr st0" and s1: "process_line st0 d2 = Inr st1"
    unfolding split1 by (blast dest: parse_lines_snoc)
  from process_line_open [OF assms(2) s1] have ce: "current_editors st1 = ?eds"
    by simp
  from parse_lines_inv [OF scope_ok_initial assms(5)] have ok: "scope_ok st1"
    by simp
  let ?st2 = "st1\<lparr>buckets := (\<lambda>k. if k \<in> set (current_editors st1)
                               then Some (dict_get (buckets st1) k [] @ lines_of cs)
                               else buckets st1 k)\<rparr>"
  have split2: "pre @ d1 # mid @ d2 # cs = (pre @ d1 # mid @ [d2]) @ cs" by simp
  have "parse_lines initial_state ((pre @ d1 # mid @ [d2]) @ cs) = Inr ?st2"
    by (simp only: parse_lines_append [of initial_state "pre @ d1 # mid @ [d2]" cs]
          assms(5) sum.case parse_content [OF ok assms(4)])
  then have "parse_lines initial_state (pre @ d1 # mid @ d2 # cs) = Inr ?st2"
    by (simp only: split2)
  then show ?thesis
    using ce by auto
qed

theorem open_replaces_scope_witness:
  "buckets (projr (parse_lines initial_state
      [py ''A'', py ''::only x, y'', py ''B'', py ''::only y,z'', py ''C'', py ''D''])) (py ''x'') = Some [py ''B''] \<and>
   buckets (projr (parse_lines initial_state
      [py ''A'', py ''::only x, y'', py ''B'', py ''::only y,z'', py ''C'', py ''D''])) (py ''y'') =
     Some [py ''B'', py ''C'', py ''D''] \<and>
   buckets (projr (parse_lines initial_state
      [py ''A'', py ''::only x, y'', py ''B'', py ''::only y,z'', py ''C'', py ''D''])) (py ''z'') =
     Some [py ''C'', py ''D'']"
proof -
  define st1 where
    "st1 = projr (parse_lines initial_state [py ''A'', py ''::only x, y'', py ''B'', py ''::only y,z''])"
  have o1: "is_open (rstrip_chars (py ''::only x, y'') nl)" and o2: "is_open (rstrip_chars (py ''::only y,z'') nl)"
    by (simp_all add: is_open_def eval_defs)
  have m: "\<forall>raw\<in>set [py ''B'']. is_content (rstrip_chars raw nl)"
    and c: "\<forall>raw\<in>set [py ''C'', py ''D'']. is_content (rstrip_chars raw nl)"
    by (simp_all add: is_content_def eval_defs)
  have p: "parse_lines initial_state ([py ''A''] @ py ''::only x, y'' # [py ''B''] @ [py ''::only y,z'']) = Inr st1"
    unfolding st1_def by (simp add: eval_defs Let_def)
  have e1: "directive_editors (rstrip_chars (py ''::only x, y'') nl) = [py ''x'', py ''y'']"
    and e2: "directive_editors (rstrip_chars (py ''::only y,z'') nl) = [py ''y'', py ''z'']"
    by (simp_all add: eval_defs)
  have b: "buckets st1 (py ''x'') = Some [py ''B'']" "dict_get (buckets st1) (py ''y'') [] = [py ''B'']"
    "dict_get (buckets st1) (py ''z'') [] = []"
    unfolding st1_def by (simp_all add: eval_defs Let_def)
  have l: "lines_of [py ''C'', py ''D''] = [py ''C'', py ''D'']"
    by (simp add: lines_of_def eval_defs)
  have x: "py ''x'' \<noteq> py ''y''" "py ''x'' \<noteq> py ''z''"
    by (simp_all add: py_def)
  from open_replaces_scope [OF o1 o2 m c p] obtain st2 where
    s: "parse_lines initial_state ([py ''A''] @ py ''::only x, y'' # [py ''B''] @ py ''::only y,z'' # [py ''C'', py ''D'']) = Inr st2"
    and y: "\<forall>k\<in>set (directive_editors (rstrip_chars (py ''::only y,z'') nl)).
               buckets st2 k = Some (dict_get (buckets st1) k [] @ lines_of [py ''C'', py ''D''])"
    and n: "\<forall>k\<in>set (directive_editors (rstrip_chars (py ''::only x, y'') nl)) -
                 set (directive_editors (rstrip_chars (py ''::only y,z'') nl)).
               buckets st2 k = buckets st1 k"
    by blast
  have "[py ''A''] @ py ''::only x, y'' # [py ''B''] @ py ''::only y,z'' # [py ''C'', py ''D''] =
        [py ''A'', py ''::only x, y'', py ''B'', py ''::only y,z'', py ''C'', py ''D'']"
    by simp
  with s have s': "projr (parse_lines initial_state
      [py ''A'', py ''::only x, y'', py ''B'', py ''::only y,z'', py ''C'', py ''D'']) = st2"
    by (simp only: sum.sel)
  from y have "buckets st2 (py ''y'') = Some [py ''B'', py ''C'', py ''D'']"
    and "buckets st2 (py ''z'') = Some [py ''C'', py ''D'']"
    unfolding e2 l by (simp_all add: b)
  moreover from n have "buckets st2 (py ''x'') = Some [py ''B'']"
    unfolding e1 e2 using x by (simp add: b)
  ultimately show ?thesis
    unfolding s' by simp
qed

text \<open>
  C10, as amended. The key of the shared bucket is an editor name like any other. After
  the line \<open>::only __ALL__\<close> the shared editor alone is active, so the content lines that
  follow it, up to the next directive, are appended to the shared bucket and to no other.
  In a document that parses, the shared bucket returned holds these lines in a row, and
  the output of every target of the registry is composed from the shared bucket, these
  lines among them, followed by the target's own bucket. The joined lines stand in the
  output of every target as they are when the last of them ends in a code point that is
  not whitespace, or when a later line of the composition (a later shared line or a line
  of the target's own bucket) holds a code point that is not whitespace.
\<close>

theorem all_key_is_shared:
  assumes "rstrip_chars d nl = py ''::only __ALL__''"
    and "\<forall>raw\<in>set cs. is_content (rstrip_chars raw nl)"
    and "parse_base_file (pre @ d # cs @ rest) = Inr bs"
    and "T \<in> fst ` set editor_aliases"
  shows "\<exists>st1 v.
           parse_lines initial_state (pre @ [d]) = Inr st1 \<and> current_editors st1 = [ALL_key] \<and>
           parse_lines initial_state (pre @ d # cs) =
             Inr (st1\<lparr>buckets := (buckets st1)(ALL_key \<mapsto> dict_get (buckets st1) ALL_key [] @ lines_of cs)\<rparr>) \<and>
           dict_get bs ALL_key [] = dict_get (buckets st1) ALL_key [] @ lines_of cs @ v \<and>
           map_of (build_outputs bs editor_aliases) T =
             Some (rstrip (join nl (dict_get (buckets st1) ALL_key [] @ lines_of cs @ v @ dict_get bs T [])) @ nl) \<and>
           (cs \<noteq> [] \<and>
            (last (lines_of cs) \<noteq> [] \<and> \<not> isspace (last (last (lines_of cs))) \<or>
             (\<exists>l\<in>set (v @ dict_get bs T []). \<exists>c\<in>set l. \<not> isspace c)) \<longrightarrow>
              sublist (join nl (lines_of cs))
                (rstrip (join nl (dict_get (buckets st1) ALL_key [] @ lines_of cs @ v @ dict_get bs T [])) @ nl))"
proof -
  from assms(3) obtain st where s: "parse_lines initial_state (pre @ d # cs @ rest) = Inr st"
    and bs: "bs = buckets st"
    by (auto simp: parse_base_file_def split: sum.splits)
  have split: "pre @ d # cs @ rest = (pre @ [d]) @ cs @ rest" by simp
  from s obtain st1 where s1: "parse_lines initial_state (pre @ [d]) = Inr st1"
    and r1: "parse_lines st1 (cs @ rest) = Inr st"
    unfolding split parse_lines_append [of initial_state "pre @ [d]" "cs @ rest"]
    by (auto split: sum.splits)
  from parse_lines_snoc [OF s1] obtain st0 where p: "process_line st0 d = Inr st1" by blast
  have o: "is_open (rstrip_chars d nl)" by (simp add: assms(1) only_ALL_open)
  from process_line_open [OF o p] have ce: "current_editors st1 = [ALL_key]"
    by (simp add: assms(1) only_ALL_editors)
  from parse_lines_inv [OF scope_ok_initial s1] have ok: "scope_ok st1" by simp
  let ?st2 = "st1\<lparr>buckets := (buckets st1)(ALL_key \<mapsto> dict_get (buckets st1) ALL_key [] @ lines_of cs)\<rparr>"
  have "(\<lambda>k. if k \<in> set (current_editors st1)
             then Some (dict_get (buckets st1) k [] @ lines_of cs) else buckets st1 k) =
        (buckets st1)(ALL_key \<mapsto> dict_get (buckets st1) ALL_key [] @ lines_of cs)"
    by (auto simp: ce fun_eq_iff)
  with parse_content [OF ok assms(2)] have c: "parse_lines st1 cs = Inr ?st2"
    by simp
  have s2: "parse_lines initial_state (pre @ d # cs) = Inr ?st2"
  proof -
    have "parse_lines initial_state ((pre @ [d]) @ cs) = Inr ?st2"
      by (simp only: parse_lines_append [of initial_state "pre @ [d]" cs] s1 sum.case c)
    then show ?thesis by simp
  qed
  from r1 have r2: "parse_lines ?st2 rest = Inr st"
    by (simp only: parse_lines_append [of st1 cs rest] c sum.case)
  from parse_lines_inv [OF scope_ok_initial s2] have ok2: "scope_ok ?st2" ..
  from parse_lines_grows [OF ok2 r2, of ALL_key] obtain v
    where v: "dict_get (buckets st) ALL_key [] = dict_get (buckets ?st2) ALL_key [] @ v" ..
  have sh: "dict_get bs ALL_key [] = dict_get (buckets st1) ALL_key [] @ lines_of cs @ v"
    using v by (simp add: bs dict_get_def)
  let ?u = "dict_get (buckets st1) ALL_key []"
  let ?w = "v @ dict_get bs T []"
  let ?J = "join nl (?u @ lines_of cs @ ?w)"
  have out: "map_of (build_outputs bs editor_aliases) T = Some (rstrip ?J @ nl)"
    using assms(4) by (simp add: build_outputs_lookup sh)
  have vis: "sublist (join nl (lines_of cs)) (rstrip ?J @ nl)"
    if ne0: "cs \<noteq> []"
      and alt: "last (lines_of cs) \<noteq> [] \<and> \<not> isspace (last (last (lines_of cs))) \<or>
                (\<exists>l\<in>set ?w. \<exists>c\<in>set l. \<not> isspace c)"
  proof -
    from ne0 have ne: "lines_of cs \<noteq> []" by (simp add: lines_of_def)
    let ?q = "if ?w = [] then [] else nl @ join nl ?w"
    from join_infix [OF ne, of nl ?u ?w]
    obtain p where j: "?J = p @ join nl (lines_of cs) @ ?q" ..
    have "\<exists>z. rstrip (p @ join nl (lines_of cs) @ ?q) = p @ join nl (lines_of cs) @ z"
      using alt
    proof
      assume a: "last (lines_of cs) \<noteq> [] \<and> \<not> isspace (last (last (lines_of cs)))"
      with join_last [OF ne, of nl]
      have "p @ join nl (lines_of cs) \<noteq> []" and "\<not> isspace (last (p @ join nl (lines_of cs)))"
        by simp_all
      from rstrip_keeps [OF this, of ?q] show ?thesis by simp
    next
      assume "\<exists>l\<in>set ?w. \<exists>c\<in>set l. \<not> isspace c"
      then obtain l c where l: "l \<in> set ?w" and c: "c \<in> set l" "\<not> isspace c" by blast
      from l have wne: "?w \<noteq> []" by auto
      from set_join [OF l, of nl] c(1) have "c \<in> set (join nl ?w)" by blast
      with wne have "c \<in> set ?q" by simp
      from rstrip_keeps_before [OF this c(2), of "p @ join nl (lines_of cs)"]
      have "rstrip (p @ join nl (lines_of cs) @ ?q) = p @ join nl (lines_of cs) @ rstrip ?q"
        by simp
      then show ?thesis ..
    qed
    then obtain z where "rstrip (p @ join nl (lines_of cs) @ ?q) = p @ join nl (lines_of cs) @ z" ..
    with j have "rstrip ?J @ nl = p @ join nl (lines_of cs) @ (z @ nl)"
      by simp
    then show ?thesis
      by (simp only: sublist_appendI)
  qed
  have all: "parse_lines initial_state (pre @ [d]) = Inr st1 \<and> current_editors st1 = [ALL_key] \<and>
           parse_lines initial_state (pre @ d # cs) =
             Inr (st1\<lparr>buckets := (buckets st1)(ALL_key \<mapsto> dict_get (buckets st1) ALL_key [] @ lines_of cs)\<rparr>) \<and>
           dict_get bs ALL_key [] = dict_get (buckets st1) ALL_key [] @ lines_of cs @ v \<and>
           map_of (build_outputs bs editor_aliases) T =
             Some (rstrip (join nl (dict_get (buckets st1) ALL_key [] @ lines_of cs @ v @ dict_get bs T [])) @ nl) \<and>
           (cs \<noteq> [] \<and>
            (last (lines_of cs) \<noteq> [] \<and> \<not> isspace (last (last (lines_of cs))) \<or>
             (\<exists>l\<in>set (v @ dict_get bs T []). \<exists>c\<in>set l. \<not> isspace c)) \<longrightarrow>
              sublist (join nl (lines_of cs))
                (rstrip (join nl (dict_get (buckets st1) ALL_key [] @ lines_of cs @ v @ dict_get bs T [])) @ nl))"
  proof (intro conjI impI)
    assume "cs \<noteq> [] \<and>
            (last (lines_of cs) \<noteq> [] \<and> \<not> isspace (last (last (lines_of cs))) \<or>
             (\<exists>l\<in>set (v @ dict_get bs T []). \<exists>c\<in>set l. \<not> isspace c))"
    then show "sublist (join nl (lines_of cs))
                (rstrip (join nl (dict_get (buckets st1) ALL_key [] @ lines_of cs @ v @ dict_get bs T [])) @ nl)"
      using vis by (elim conjE)
  qed (fact s1 ce s2 sh out)+
  show ?thesis
    apply (rule exI [of _ st1])
    apply (rule exI [of _ v])
    apply (rule all)
    done
qed

theorem all_key_is_shared_witness:
  "dict_get (projr (parse_base_file
      [py ''A'', py ''::only __ALL__\<newline>'', py ''Some text'', py [], py ''::end'', py ''tail''])) ALL_key [] =
     [py ''A'', py ''Some text'', py [], py ''tail''] \<and>
   map_of (build_outputs (projr (parse_base_file
      [py ''A'', py ''::only __ALL__\<newline>'', py ''Some text'', py [], py ''::end'', py ''tail'']))
      [(py ''x'', py ''X.md''), (py ''y'', py ''Y.md'')]) (py ''y'') =
     Some (py ''A\<newline>Some text\<newline>\<newline>tail\<newline>'') \<and>
   sublist (py ''Some text\<newline>'') (py ''A\<newline>Some text\<newline>\<newline>tail\<newline>'')"
proof -
  define bs where
    "bs = projr (parse_base_file
       [py ''A'', py ''::only __ALL__\<newline>'', py ''Some text'', py [], py ''::end'', py ''tail''])"
  let ?reg = "[(py ''x'', py ''X.md''), (py ''y'', py ''Y.md'')]"
  let ?cs = "[py ''Some text'', py []]"
  have d: "rstrip_chars (py ''::only __ALL__\<newline>'') nl = py ''::only __ALL__''"
    by (simp add: eval_defs)
  have c: "\<forall>raw\<in>set ?cs. is_content (rstrip_chars raw nl)"
    by (simp add: is_content_def eval_defs)
  have q: "parse_base_file ([py ''A''] @ py ''::only __ALL__\<newline>'' # ?cs @ [py ''::end'', py ''tail'']) = Inr bs"
    unfolding bs_def by (simp add: eval_defs Let_def)
  have t: "py ''y'' \<in> fst ` set ?reg"
    by simp
  have a: "dict_get bs ALL_key [] = [py ''A'', py ''Some text'', py [], py ''tail'']"
    and y: "dict_get bs (py ''y'') [] = []"
    unfolding bs_def by (simp_all add: eval_defs Let_def)
  have k: "dict_get (buckets (projr (parse_lines initial_state ([py ''A''] @ [py ''::only __ALL__\<newline>'']))))
             ALL_key [] = [py ''A'']"
    by (simp add: eval_defs Let_def)
  have l: "lines_of ?cs = ?cs"
    by (simp add: lines_of_def eval_defs)
  have e1: "join nl ?cs = py ''Some text\<newline>''"
    by (simp add: eval_defs)
  have e2: "rstrip (join nl ([py ''A''] @ ?cs @ [py ''tail''] @ [])) @ nl =
            py ''A\<newline>Some text\<newline>\<newline>tail\<newline>''"
    by (simp add: eval_defs)
  let ?P = "\<lambda>st1 v.
      parse_lines initial_state ([py ''A''] @ [py ''::only __ALL__\<newline>'']) = Inr st1 \<and>
      current_editors st1 = [ALL_key] \<and>
      parse_lines initial_state ([py ''A''] @ py ''::only __ALL__\<newline>'' # ?cs) =
        Inr (st1\<lparr>buckets := (buckets st1)(ALL_key \<mapsto> dict_get (buckets st1) ALL_key [] @ lines_of ?cs)\<rparr>) \<and>
      dict_get bs ALL_key [] = dict_get (buckets st1) ALL_key [] @ lines_of ?cs @ v \<and>
      map_of (build_outputs bs ?reg) (py ''y'') =
        Some (rstrip (join nl (dict_get (buckets st1) ALL_key [] @ lines_of ?cs @ v @
          dict_get bs (py ''y'') [])) @ nl) \<and>
      (?cs \<noteq> [] \<and>
       (last (lines_of ?cs) \<noteq> [] \<and> \<not> isspace (last (last (lines_of ?cs))) \<or>
        (\<exists>l\<in>set (v @ dict_get bs (py ''y'') []). \<exists>c\<in>set l. \<not> isspace c)) \<longrightarrow>
       sublist (join nl (lines_of ?cs))
         (rstrip (join nl (dict_get (buckets st1) ALL_key [] @ lines_of ?cs @ v @
            dict_get bs (py ''y'') [])) @ nl))"
  from all_key_is_shared [OF d c q t] obtain st1 where "\<exists>v. ?P st1 v" ..
  then obtain v where conj: "?P st1 v" ..
  note s1 = conj [THEN conjunct1]
  note sh = conj [THEN conjunct2, THEN conjunct2, THEN conjunct2, THEN conjunct1]
  note out = conj [THEN conjunct2, THEN conjunct2, THEN conjunct2, THEN conjunct2, THEN conjunct1]
  note vis = conj [THEN conjunct2, THEN conjunct2, THEN conjunct2, THEN conjunct2, THEN conjunct2]
  from k have u: "dict_get (buckets st1) ALL_key [] = [py ''A'']"
    by (simp only: s1 sum.sel)
  from sh have "[py ''A'', py ''Some text'', py [], py ''tail''] = [py ''A''] @ ?cs @ v"
    by (simp only: a u l)
  then have v: "v = [py ''tail'']"
    by simp
  have "\<exists>l\<in>set ([py ''tail''] @ []). \<exists>c\<in>set l. \<not> isspace c"
    by (simp add: py_def isspace_def)
  then have cond: "?cs \<noteq> [] \<and>
       (last (lines_of ?cs) \<noteq> [] \<and> \<not> isspace (last (last (lines_of ?cs))) \<or>
        (\<exists>l\<in>set (v @ dict_get bs (py ''y'') []). \<exists>c\<in>set l. \<not> isspace c))"
    unfolding v y by blast
  from vis [rule_format, OF cond]
  have 1: "sublist (py ''Some text\<newline>'') (py ''A\<newline>Some text\<newline>\<newline>tail\<newline>'')"
    by (simp only: u l v y e1 e2)
  from out have 2: "map_of (build_outputs bs ?reg) (py ''y'') =
      Some (py ''A\<newline>Some text\<newline>\<newline>tail\<newline>'')"
    by (simp only: u l v y e2)
  from a 2 1 show ?thesis
    unfolding bs_def by (intro conjI)
qed

text \<open>
  Without the condition the lines need not stand in the output: a blank at the end of
  the last line of the composition, or a last line of blanks only, is stripped.
\<close>

theorem all_key_is_shared_counterexample:
  "is_content (rstrip_chars (py ''B '') nl) \<and>
   dict_get (projr (parse_base_file [py ''::only __ALL__'', py ''B ''])) ALL_key [] = [py ''B ''] \<and>
   map_of (projr (sync_rules [py ''::only __ALL__'', py ''B ''] [(py ''y'', py ''Y.md'')])) (py ''y'') =
     Some (py ''B\<newline>'') \<and>
   \<not> sublist (py ''B '') (py ''B\<newline>'') \<and>
   is_content (rstrip_chars (py ''   '') nl) \<and>
   dict_get (projr (parse_base_file [py ''A'', py ''::only __ALL__'', py ''   ''])) ALL_key [] =
     [py ''A'', py ''   ''] \<and>
   map_of (projr (sync_rules [py ''A'', py ''::only __ALL__'', py ''   ''] [(py ''y'', py ''Y.md'')])) (py ''y'') =
     Some (py ''A\<newline>'') \<and>
   \<not> sublist (py ''   '') (py ''A\<newline>'')"
  by (simp add: is_content_def eval_defs sublist_code)

end
